theory Spec2Isabelle
  imports Main "HOL-Library.Word"
begin

section \<open>Data model of \<open>soft_timer.c\<close>\<close>

text \<open>
  The module multiplexes one hardware timer into a pool of
  \<open>SOFT_TIMER_MAX_TIMERS\<close> software timers.  The C types are embedded as follows.
  \<^item> \<open>uint32_t\<close>, \<open>uint16_t\<close> and \<open>uint8_t\<close> are \<open>32 word\<close>, \<open>16 word\<close> and \<open>8 word\<close>;
    subtraction wraps and an implicit narrowing conversion is \<open>ucast\<close>.
  \<^item> \<open>struct soft_timer\<close> is the record \<open>soft_timer\<close>; the field \<open>id\<close> is called
    \<open>timer_id\<close> here.
  \<^item> A function pointer \<open>soft_timer_callback_t\<close> is a natural number naming the function,
    \<open>None\<close> being the \<open>NULL\<close> pointer.  Calling it appends an event to the log \<open>calls\<close> of
    the module state; the event records the function, the slot it was called with and the
    contents of that slot at the moment of the call.  A callback is taken not to write to the
    module's state.
  \<^item> A \<open>soft_timer_t*\<close> is either \<open>NULL\<close> or \<open>Ptr k\<close>, the address \<open>&m_timers[0] + k\<close>
    for an integer \<open>k\<close> (addresses that are not a whole number of slots away from the pool
    are not represented).  Inside the module a pointer into the pool is the slot's index.
\<close>

type_synonym soft_timer_callback = nat

datatype timer_state = TIMER_STATE_FREE | TIMER_STATE_STOPPED | TIMER_STATE_RUNNING

datatype soft_timer_status =
    SOFT_TIMER_STATUS_SUCCESS
  | SOFT_TIMER_STATUS_INVALID_PARAMETER
  | SOFT_TIMER_STATUS_INVALID_STATE

record soft_timer =
  state :: timer_state
  timer_id :: "8 word"
  reload_ms :: "32 word"
  countdown_ms :: "32 word"
  repeat :: bool
  callback :: "soft_timer_callback option"

datatype soft_timer_ptr = NULL | Ptr int

datatype event = Callback_Call (ev_callback: soft_timer_callback) (ev_timer: nat) (ev_arg: soft_timer)

text \<open>
  The hardware timer behind \<open>TIM_HandleTypeDef*\<close>: its auto-reload register, its counter
  and whether it is counting with the update interrupt enabled.
\<close>

record TIM_HandleTypeDef =
  ARR :: "32 word"
  CNT :: "32 word"
  counting :: bool

record module =
  m_timers :: "soft_timer list"
  mp_htim :: TIM_HandleTypeDef
  m_is_initialized :: bool
  m_max_reload_ms :: "32 word"
  calls :: "event list"

definition SOFT_TIMER_MAX_TIMERS :: nat where
  "SOFT_TIMER_MAX_TIMERS = 10"

definition STOPPED_TIMER_COUNTDOWN_VALUE :: "32 word" where
  "STOPPED_TIMER_COUNTDOWN_VALUE = 0xFFFFFFFF"

text \<open>
  The state of the module's static variables when the program starts: the pool is
  zero-initialised, \<open>m_is_initialized\<close> is false and \<open>m_max_reload_ms\<close> is \<open>0xFFFF\<close>.  The
  pointer \<open>mp_htim\<close> is null until \<open>soft_timer_init\<close> sets it; the model holds a hardware
  timer at rest in its place, and every statement below starts from \<open>soft_timer_init\<close>.
\<close>

definition zero_timer :: soft_timer where
  "zero_timer = \<lparr>state = TIMER_STATE_FREE, timer_id = 0, reload_ms = 0, countdown_ms = 0,
                 repeat = False, callback = None\<rparr>"

definition tim_at_rest :: TIM_HandleTypeDef where
  "tim_at_rest = \<lparr>ARR = 0xFFFF, CNT = 0, counting = False\<rparr>"

definition power_on :: module where
  "power_on = \<lparr>m_timers = replicate SOFT_TIMER_MAX_TIMERS zero_timer, mp_htim = tim_at_rest,
               m_is_initialized = False, m_max_reload_ms = 0xFFFF, calls = []\<rparr>"

section \<open>The hardware timer adapter\<close>

text \<open>
  The register macros and functions of the vendor's HAL (\<open>tim.h\<close>) are not part of the
  sources.  Each is modelled from the spec's description of the hardware timer adapter.
\<close>

text \<open>Modelled from the spec: \<open>__HAL_TIM_SET_AUTORELOAD\<close>, which programs the reload value.\<close>

definition HAL_TIM_SET_AUTORELOAD :: "TIM_HandleTypeDef \<Rightarrow> 32 word \<Rightarrow> TIM_HandleTypeDef" where
  "HAL_TIM_SET_AUTORELOAD htim v = htim\<lparr>ARR := v\<rparr>"

text \<open>Modelled from the spec: \<open>__HAL_TIM_GET_AUTORELOAD\<close>, which reads the programmed reload value back.\<close>

definition HAL_TIM_GET_AUTORELOAD :: "TIM_HandleTypeDef \<Rightarrow> 32 word" where
  "HAL_TIM_GET_AUTORELOAD htim = ARR htim"

text \<open>Modelled from the spec: \<open>__HAL_TIM_SET_COUNTER\<close>, which writes the elapsed counter.\<close>

definition HAL_TIM_SET_COUNTER :: "TIM_HandleTypeDef \<Rightarrow> 32 word \<Rightarrow> TIM_HandleTypeDef" where
  "HAL_TIM_SET_COUNTER htim v = htim\<lparr>CNT := v\<rparr>"

text \<open>Modelled from the spec: \<open>__HAL_TIM_GET_COUNTER\<close>, which reads the elapsed counter.\<close>

definition HAL_TIM_GET_COUNTER :: "TIM_HandleTypeDef \<Rightarrow> 32 word" where
  "HAL_TIM_GET_COUNTER htim = CNT htim"

text \<open>Modelled from the spec: \<open>HAL_TIM_Base_Start_IT\<close>, which starts hardware counting.\<close>

definition HAL_TIM_Base_Start_IT :: "TIM_HandleTypeDef \<Rightarrow> TIM_HandleTypeDef" where
  "HAL_TIM_Base_Start_IT htim = htim\<lparr>counting := True\<rparr>"

text \<open>Modelled from the spec: \<open>HAL_TIM_Base_Stop_IT\<close>, which stops hardware counting.\<close>

definition HAL_TIM_Base_Stop_IT :: "TIM_HandleTypeDef \<Rightarrow> TIM_HandleTypeDef" where
  "HAL_TIM_Base_Stop_IT htim = htim\<lparr>counting := False\<rparr>"

text \<open>
  \<open>hard_timer_init\<close> also programs the prescaler and clears the update flag; neither is part
  of the state modelled here.  The functions that read \<open>m_max_reload_ms\<close> take it as an
  argument.  The macro \<open>min\<close> of \<open>utils.h\<close> is the minimum of two unsigned values.
\<close>

definition hard_timer_init :: "32 word \<Rightarrow> TIM_HandleTypeDef \<Rightarrow> TIM_HandleTypeDef" where
  "hard_timer_init max_reload htim = HAL_TIM_SET_AUTORELOAD htim max_reload"

definition hard_timer_start :: "TIM_HandleTypeDef \<Rightarrow> TIM_HandleTypeDef" where
  "hard_timer_start htim = HAL_TIM_Base_Start_IT (HAL_TIM_SET_COUNTER htim 0)"

definition hard_timer_stop :: "TIM_HandleTypeDef \<Rightarrow> TIM_HandleTypeDef" where
  "hard_timer_stop htim = HAL_TIM_SET_COUNTER (HAL_TIM_Base_Stop_IT htim) 0"

definition hard_timer_reload_get :: "TIM_HandleTypeDef \<Rightarrow> 32 word" where
  "hard_timer_reload_get htim = HAL_TIM_GET_AUTORELOAD htim"

definition hard_timer_counter_get :: "TIM_HandleTypeDef \<Rightarrow> 32 word" where
  "hard_timer_counter_get htim = HAL_TIM_GET_COUNTER htim"

definition hard_timer_reload_set :: "32 word \<Rightarrow> TIM_HandleTypeDef \<Rightarrow> 32 word \<Rightarrow> TIM_HandleTypeDef" where
  "hard_timer_reload_set max_reload htim reload = HAL_TIM_SET_AUTORELOAD htim (min reload max_reload)"

definition hard_timer_update :: "32 word \<Rightarrow> module \<Rightarrow> module" where
  "hard_timer_update timer_reload_ms m =
     (let m1 = m\<lparr>mp_htim := hard_timer_reload_set (m_max_reload_ms m) (mp_htim m) timer_reload_ms\<rparr>
      in if timer_reload_ms \<noteq> 0
         then m1\<lparr>mp_htim := hard_timer_start (mp_htim m1)\<rparr>
         else m1\<lparr>mp_htim := hard_timer_stop (mp_htim m1)\<rparr>)"

section \<open>The update engine\<close>

text \<open>
  \<open>timer_stop\<close> and \<open>timer_step\<close> work on one slot through a pointer.  The model passes the
  slot's contents and returns the new contents; \<open>timer_step\<close> also takes the slot's index
  (the pointer value handed to the callback) and returns the callback calls it made.
\<close>

definition timer_stop :: "soft_timer \<Rightarrow> soft_timer" where
  "timer_stop timer =
     timer\<lparr>state := TIMER_STATE_STOPPED, countdown_ms := STOPPED_TIMER_COUNTDOWN_VALUE,
           repeat := False\<rparr>"

definition timer_step :: "nat \<Rightarrow> soft_timer \<Rightarrow> 16 word \<Rightarrow> soft_timer \<times> event list" where
  "timer_step p timer time_step_ms =
     (if state timer \<noteq> TIMER_STATE_RUNNING then (timer, [])
      else if countdown_ms timer = 0 \<and> time_step_ms \<noteq> 0 then (timer, [])
      else
        let timer1 = timer\<lparr>countdown_ms := countdown_ms timer - ucast time_step_ms\<rparr> in
        if countdown_ms timer1 \<noteq> 0 then (timer1, [])
        else
          let evs = (case callback timer1 of None \<Rightarrow> [] | Some f \<Rightarrow> [Callback_Call f p timer1]) in
          if repeat timer1
          then (timer1\<lparr>countdown_ms := reload_ms timer1 - 1\<rparr>, evs)
          else (timer_stop timer1, evs))"

text \<open>
  One iteration of the loop of \<open>soft_timers_update\<close>: step slot \<open>i\<close> in place (the 32-bit
  argument is narrowed to the 16-bit parameter of \<open>timer_step\<close>), then fold the slot's
  countdown into the running minimum.
\<close>

definition soft_timers_update_body :: "32 word \<Rightarrow> nat \<Rightarrow> 32 word \<times> module \<Rightarrow> 32 word \<times> module" where
  "soft_timers_update_body time_since_last_update_ms i s =
     (case s of (time_until_next_timeout_ms, m) \<Rightarrow>
        let (timer', evs) = timer_step i (m_timers m ! i) (ucast time_since_last_update_ms);
            m' = m\<lparr>m_timers := (m_timers m)[i := timer'], calls := calls m @ evs\<rparr>
        in (min time_until_next_timeout_ms (countdown_ms (m_timers m' ! i)), m'))"

definition soft_timers_update_loop :: "32 word \<Rightarrow> module \<Rightarrow> 32 word \<times> module" where
  "soft_timers_update_loop time_since_last_update_ms m =
     fold (soft_timers_update_body time_since_last_update_ms) [0..<SOFT_TIMER_MAX_TIMERS]
       (STOPPED_TIMER_COUNTDOWN_VALUE, m)"

definition soft_timers_update :: "32 word \<Rightarrow> module \<Rightarrow> 32 word \<times> module" where
  "soft_timers_update time_since_last_update_ms m =
     (case soft_timers_update_loop time_since_last_update_ms m of
        (time_until_next_timeout_ms, m') \<Rightarrow>
          (if time_until_next_timeout_ms = STOPPED_TIMER_COUNTDOWN_VALUE then 0
           else time_until_next_timeout_ms, m'))"

definition timers_update :: "32 word \<Rightarrow> module \<Rightarrow> module" where
  "timers_update time_since_last_update_ms m =
     (case soft_timers_update time_since_last_update_ms m of
        (next_reload_ms, m') \<Rightarrow> hard_timer_update next_reload_ms m')"

section \<open>The public functions\<close>

definition in_pool :: "soft_timer_ptr \<Rightarrow> bool" where
  "in_pool timer = (case timer of NULL \<Rightarrow> False | Ptr k \<Rightarrow> 0 \<le> k \<and> k < int SOFT_TIMER_MAX_TIMERS)"

definition slot_of :: "soft_timer_ptr \<Rightarrow> nat" where
  "slot_of timer = (case timer of NULL \<Rightarrow> 0 | Ptr k \<Rightarrow> nat k)"

definition soft_timer_init_slot :: "nat \<Rightarrow> soft_timer list \<Rightarrow> soft_timer list" where
  "soft_timer_init_slot i ts = ts[i := (timer_stop (ts ! i))\<lparr>state := TIMER_STATE_FREE, timer_id := of_nat i\<rparr>]"

definition soft_timer_init :: "TIM_HandleTypeDef \<Rightarrow> 32 word \<Rightarrow> module \<Rightarrow> module" where
  "soft_timer_init htim max_reload_ms m =
     (let m1 = m\<lparr>mp_htim := htim, m_max_reload_ms := min max_reload_ms (0xFFFFFFFF - 1)\<rparr> in
      if m_is_initialized m1 then m1
      else
        let m2 = m1\<lparr>m_timers := fold soft_timer_init_slot [0..<SOFT_TIMER_MAX_TIMERS] (m_timers m1)\<rparr>;
            m3 = m2\<lparr>mp_htim := hard_timer_init (m_max_reload_ms m2) (mp_htim m2)\<rparr>
        in m3\<lparr>m_is_initialized := True\<rparr>)"

text \<open>
  The loop of \<open>soft_timer_create\<close>, from index \<open>i\<close> on, with \<open>n\<close> slots left to look at.
\<close>

fun soft_timer_create_from :: "nat \<Rightarrow> nat \<Rightarrow> module \<Rightarrow> soft_timer_ptr \<times> module" where
  "soft_timer_create_from 0 i m = (NULL, m)"
| "soft_timer_create_from (Suc n) i m =
     (if state (m_timers m ! i) = TIMER_STATE_FREE
      then (Ptr (int i), m\<lparr>m_timers := (m_timers m)[i := (m_timers m ! i)\<lparr>state := TIMER_STATE_STOPPED\<rparr>]\<rparr>)
      else soft_timer_create_from n (Suc i) m)"

definition soft_timer_create :: "module \<Rightarrow> soft_timer_ptr \<times> module" where
  "soft_timer_create m = soft_timer_create_from SOFT_TIMER_MAX_TIMERS 0 m"

text \<open>
  \<open>soft_timer_destroy\<close> returns \<open>void\<close>; its argument points to the caller's handle, which
  the function may overwrite.  The model returns the handle's new value and the new state.
\<close>

definition soft_timer_destroy :: "soft_timer_ptr \<Rightarrow> module \<Rightarrow> soft_timer_ptr \<times> module" where
  "soft_timer_destroy timer m =
     (if in_pool timer \<and> state (m_timers m ! slot_of timer) = TIMER_STATE_STOPPED
      then (NULL, m\<lparr>m_timers := (m_timers m)[slot_of timer :=
                      (m_timers m ! slot_of timer)\<lparr>state := TIMER_STATE_FREE\<rparr>]\<rparr>)
      else (timer, m))"

definition soft_timer_set ::
  "soft_timer_ptr \<Rightarrow> soft_timer_callback option \<Rightarrow> 32 word \<Rightarrow> bool \<Rightarrow> module \<Rightarrow> soft_timer_status \<times> module" where
  "soft_timer_set timer cb reload rep m =
     (if \<not> in_pool timer then (SOFT_TIMER_STATUS_INVALID_PARAMETER, m)
      else if reload \<le> 1 \<or> reload > m_max_reload_ms m then (SOFT_TIMER_STATUS_INVALID_PARAMETER, m)
      else if state (m_timers m ! slot_of timer) \<noteq> TIMER_STATE_STOPPED
        then (SOFT_TIMER_STATUS_INVALID_STATE, m)
      else (SOFT_TIMER_STATUS_SUCCESS,
            m\<lparr>m_timers := (m_timers m)[slot_of timer :=
                 (m_timers m ! slot_of timer)\<lparr>reload_ms := reload, repeat := rep, callback := cb\<rparr>]\<rparr>))"

definition soft_timer_start :: "soft_timer_ptr \<Rightarrow> module \<Rightarrow> soft_timer_status \<times> module" where
  "soft_timer_start timer m =
     (if \<not> in_pool timer then (SOFT_TIMER_STATUS_INVALID_PARAMETER, m)
      else if state (m_timers m ! slot_of timer) \<noteq> TIMER_STATE_STOPPED
        then (SOFT_TIMER_STATUS_INVALID_STATE, m)
      else
        let time_since_last_update_ms = hard_timer_counter_get (mp_htim m);
            m1 = timers_update time_since_last_update_ms m;
            t = m_timers m1 ! slot_of timer;
            m2 = m1\<lparr>m_timers := (m_timers m1)[slot_of timer :=
                       t\<lparr>countdown_ms := reload_ms t - 1, state := TIMER_STATE_RUNNING\<rparr>]\<rparr>
        in (SOFT_TIMER_STATUS_SUCCESS, timers_update 0 m2))"

definition soft_timer_stop :: "soft_timer_ptr \<Rightarrow> module \<Rightarrow> soft_timer_status \<times> module" where
  "soft_timer_stop timer m =
     (if \<not> in_pool timer then (SOFT_TIMER_STATUS_INVALID_PARAMETER, m)
      else if state (m_timers m ! slot_of timer) \<noteq> TIMER_STATE_RUNNING
        then (SOFT_TIMER_STATUS_INVALID_STATE, m)
      else
        let m1 = m\<lparr>m_timers := (m_timers m)[slot_of timer := timer_stop (m_timers m ! slot_of timer)]\<rparr>;
            time_since_last_update_ms = hard_timer_counter_get (mp_htim m1)
        in (SOFT_TIMER_STATUS_SUCCESS, timers_update time_since_last_update_ms m1))"

text \<open>
  \<open>soft_timer_is_stopped\<close> dereferences its argument without looking at it first.  A pointer
  outside the pool reads memory this model does not describe: the result is \<open>None\<close>.
\<close>

definition soft_timer_is_stopped :: "soft_timer_ptr \<Rightarrow> module \<Rightarrow> bool option" where
  "soft_timer_is_stopped timer m =
     (if in_pool timer then Some (state (m_timers m ! slot_of timer) = TIMER_STATE_STOPPED)
      else None)"

text \<open>
  The local variable \<open>elapsed_time_ms\<close> of the interrupt entry point is a \<open>uint16_t\<close>: the
  32-bit reload value is narrowed on assignment and widened again for the call.
\<close>

definition soft_timer_period_elapsed_callback :: "module \<Rightarrow> module" where
  "soft_timer_period_elapsed_callback m =
     (let elapsed_time_ms = (ucast (hard_timer_reload_get (mp_htim m)) :: 16 word)
      in timers_update (ucast elapsed_time_ms) m)"

section \<open>Sequences of operations\<close>

text \<open>
  What can happen to the module, one step at a time: a call of a public function, the
  hardware expiry interrupt, a direct pool advance (\<open>timers_update\<close> with a given elapsed
  time) and the hardware counter moving to a new value.  \<open>perform\<close> gives the value the C
  function returns and the next state; a function declared \<open>void\<close> returns \<open>Ret_Void\<close>.
\<close>

datatype action =
    Init TIM_HandleTypeDef "32 word"
  | Create
  | Destroy soft_timer_ptr
  | Set_Timer soft_timer_ptr "soft_timer_callback option" "32 word" bool
  | Start soft_timer_ptr
  | Stop soft_timer_ptr
  | Is_Stopped soft_timer_ptr
  | Period_Elapsed
  | Advance "32 word"
  | Hw_Count "32 word"

datatype returned =
    Ret_Void
  | Ret_Ptr soft_timer_ptr
  | Ret_Status soft_timer_status
  | Ret_Bool bool
  | Ret_Undefined

fun perform :: "action \<Rightarrow> module \<Rightarrow> returned \<times> module" where
  "perform (Init htim max_reload) m = (Ret_Void, soft_timer_init htim max_reload m)"
| "perform Create m = (Ret_Ptr (fst (soft_timer_create m)), snd (soft_timer_create m))"
| "perform (Destroy p) m = (Ret_Void, snd (soft_timer_destroy p m))"
| "perform (Set_Timer p cb reload rep) m =
     (Ret_Status (fst (soft_timer_set p cb reload rep m)), snd (soft_timer_set p cb reload rep m))"
| "perform (Start p) m = (Ret_Status (fst (soft_timer_start p m)), snd (soft_timer_start p m))"
| "perform (Stop p) m = (Ret_Status (fst (soft_timer_stop p m)), snd (soft_timer_stop p m))"
| "perform (Is_Stopped p) m =
     (case soft_timer_is_stopped p m of None \<Rightarrow> Ret_Undefined | Some b \<Rightarrow> Ret_Bool b, m)"
| "perform Period_Elapsed m = (Ret_Void, soft_timer_period_elapsed_callback m)"
| "perform (Advance elapsed) m = (Ret_Void, timers_update elapsed m)"
| "perform (Hw_Count c) m = (Ret_Void, m\<lparr>mp_htim := HAL_TIM_SET_COUNTER (mp_htim m) c\<rparr>)"

definition run :: "action list \<Rightarrow> module \<Rightarrow> module" where
  "run acts m = fold (\<lambda>a m. snd (perform a m)) acts m"

section \<open>Observations and invariants\<close>

text \<open>The countdowns of the Running slots, and the calls made with a given slot.\<close>

definition running_countdowns :: "module \<Rightarrow> 32 word list" where
  "running_countdowns m =
     map countdown_ms (filter (\<lambda>t. state t = TIMER_STATE_RUNNING) (m_timers m))"


text \<open>
  The time the pool reports: the least countdown of a Running slot, zero when no slot
  is Running.
\<close>

definition next_timeout :: "module \<Rightarrow> 32 word" where
  "next_timeout m =
     (if running_countdowns m = [] then 0 else Min (set (running_countdowns m)))"


text \<open>
  \<open>sentinel_inv\<close>: the pool has its \<open>SOFT_TIMER_MAX_TIMERS\<close> slots and every slot that is
  not Running holds the sentinel countdown.  \<open>pool_inv\<close> adds that every Running slot counts
  down from below its reload value.  \<open>step_fits m s\<close>: no Running slot has less than \<open>s\<close>
  left.  \<open>hw_inv\<close>: neither the hardware counter nor the programmed reload exceeds what a
  Running slot has left.
\<close>

definition sentinel_inv :: "module \<Rightarrow> bool" where
  "sentinel_inv m \<longleftrightarrow>
     length (m_timers m) = SOFT_TIMER_MAX_TIMERS \<and>
     (\<forall>t\<in>set (m_timers m). state t \<noteq> TIMER_STATE_RUNNING \<longrightarrow>
        countdown_ms t = STOPPED_TIMER_COUNTDOWN_VALUE)"

definition pool_inv :: "module \<Rightarrow> bool" where
  "pool_inv m \<longleftrightarrow>
     sentinel_inv m \<and>
     (\<forall>t\<in>set (m_timers m). state t = TIMER_STATE_RUNNING \<longrightarrow> countdown_ms t < reload_ms t)"

definition step_fits :: "module \<Rightarrow> 32 word \<Rightarrow> bool" where
  "step_fits m s \<longleftrightarrow>
     (\<forall>t\<in>set (m_timers m). state t = TIMER_STATE_RUNNING \<longrightarrow> s \<le> countdown_ms t)"






text \<open>The slot a pool advance leaves at index \<open>i\<close>, with the callback calls it made.\<close>

definition stepped :: "32 word \<Rightarrow> module \<Rightarrow> nat \<Rightarrow> soft_timer \<times> event list" where
  "stepped s m i = timer_step i (m_timers m ! i) (ucast s)"

text \<open>The pool after an advance by \<open>s\<close>: every slot stepped, in index order.\<close>

definition pool_after :: "32 word \<Rightarrow> module \<Rightarrow> soft_timer list" where
  "pool_after s m = map (\<lambda>i. fst (stepped s m i)) [0..<SOFT_TIMER_MAX_TIMERS]"

section \<open>Concrete slots and states\<close>



definition stopped_slot :: soft_timer where
  "stopped_slot = \<lparr>state = TIMER_STATE_STOPPED, timer_id = 1, reload_ms = 10, countdown_ms = 0,
                    repeat = False, callback = Some 7\<rparr>"

text \<open>
  States reached from power-on through the public functions.  \<open>m_ready\<close>: initialised for
  a 16-bit hardware timer.  \<open>m_two\<close>: slot 0 runs a one-shot timer of 10 ms, slot 1 a
  repeating timer of 5 ms.  \<open>m_recycled\<close>: slot 0 was configured as repeating and then
  destroyed.  \<open>m_wide\<close>: initialised for a 32-bit hardware timer, slot 0 runs a timer of
  65537 ms.  \<open>m_unset\<close>: slot 0 was started without ever being configured.
\<close>

definition m_ready :: module where
  "m_ready = soft_timer_init tim_at_rest 0xFFFF power_on"

definition m_two :: module where
  "m_two = run [Create, Set_Timer (Ptr 0) (Some 1) 10 False, Start (Ptr 0),
                Create, Set_Timer (Ptr 1) (Some 2) 5 True, Start (Ptr 1)] m_ready"

definition m_recycled :: module where
  "m_recycled = run [Create, Set_Timer (Ptr 0) (Some 1) 5 True, Destroy (Ptr 0)] m_ready"

definition m_wide :: module where
  "m_wide = run [Create, Set_Timer (Ptr 0) (Some 1) 0x10001 False, Start (Ptr 0)]
              (soft_timer_init tim_at_rest 0xFFFFFFFF power_on)"


definition m_created :: module where
  "m_created = run [Create] m_ready"











definition m_reused :: module where
  "m_reused = run [Create, Start (Ptr 0), Advance 4] m_recycled"



section \<open>Narrowing and widening of machine integers\<close>

lemma unat_ucast16: "unat (ucast (s::16 word) :: 32 word) = unat s"
  by (simp add: unsigned_ucast_eq take_bit_nat_eq_self_iff) (rule order_less_le_trans[OF unsigned_less], simp)


lemma unat_narrow: "unat (ucast (x::32 word) :: 16 word) = unat x mod 65536"
  by (simp add: unsigned_ucast_eq take_bit_eq_mod)

lemma narrow_widen_le: "(ucast (ucast (x::32 word) :: 16 word) :: 32 word) \<le> x"
  by (simp add: word_le_nat_alt unat_ucast16 unat_narrow)


lemma word_pred_less: "(x::32 word) \<noteq> 0 \<Longrightarrow> x - 1 < x"
  by (simp add: word_less_nat_alt unat_minus_one unat_gt_0)

lemma word_sub_le_less: "(y::32 word) \<le> x \<Longrightarrow> x < r \<Longrightarrow> x - y < r"
  by (meson order_le_less_trans word_sub_le)

section \<open>The per-slot step\<close>




lemma list_update_Ball:
  "\<forall>t\<in>set xs. P t \<Longrightarrow> P x \<Longrightarrow> \<forall>t\<in>set (xs[i := x]). P t"
  using set_update_subset_insert[of xs i x] by auto

lemma timer_step_sentinel:
  assumes "state t \<noteq> TIMER_STATE_RUNNING \<longrightarrow> countdown_ms t = STOPPED_TIMER_COUNTDOWN_VALUE"
  shows "state (fst (timer_step p t s)) \<noteq> TIMER_STATE_RUNNING \<longrightarrow>
         countdown_ms (fst (timer_step p t s)) = STOPPED_TIMER_COUNTDOWN_VALUE"
  using assms by (simp add: timer_step_def timer_stop_def Let_def)

lemma timer_step_bounded:
  assumes "state t = TIMER_STATE_RUNNING \<longrightarrow> countdown_ms t < reload_ms t"
    and "state t = TIMER_STATE_RUNNING \<longrightarrow> ucast s \<le> countdown_ms t"
  shows "state (fst (timer_step p t s)) = TIMER_STATE_RUNNING \<longrightarrow>
         countdown_ms (fst (timer_step p t s)) < reload_ms (fst (timer_step p t s))"
proof (cases "state t = TIMER_STATE_RUNNING")
  case False
  then show ?thesis by (simp add: timer_step_def)
next
  case True
  with assms have lt: "countdown_ms t < reload_ms t" and le: "ucast s \<le> countdown_ms t"
    by simp_all
  from lt have "reload_ms t \<noteq> 0" by auto
  then have "reload_ms t - 1 < reload_ms t" by (rule word_pred_less)
  moreover have "countdown_ms t - ucast s < reload_ms t"
    using le lt by (rule word_sub_le_less)
  ultimately show ?thesis
    using True lt by (auto simp: timer_step_def timer_stop_def Let_def)
qed

lemma timer_step_zero:
  assumes "state t = TIMER_STATE_RUNNING" "state (fst (timer_step p t 0)) = TIMER_STATE_RUNNING"
  shows "fst (timer_step p t 0) = t \<or>
         countdown_ms (fst (timer_step p t 0)) = reload_ms (fst (timer_step p t 0)) - 1"
  using assms by (simp add: timer_step_def timer_stop_def Let_def split: if_splits)



section \<open>The pool-wide loop\<close>

lemma body_simp:
  "soft_timers_update_body s i (acc, m) =
     (min acc (countdown_ms ((m_timers m)[i := fst (stepped s m i)] ! i)),
      m\<lparr>m_timers := (m_timers m)[i := fst (stepped s m i)],
        calls := calls m @ snd (stepped s m i)\<rparr>)"
  by (simp add: soft_timers_update_body_def stepped_def Let_def split: prod.splits)

lemma fold_update_length:
  "length (fold (\<lambda>i ts. ts[i := f i]) is ts) = length ts"
  by (induction "is" arbitrary: ts) simp_all

lemma fold_update_nth:
  "j < length ts \<Longrightarrow> fold (\<lambda>i ts. ts[i := f i]) is ts ! j = (if j \<in> set is then f j else ts ! j)"
proof (induction "is" arbitrary: ts)
  case Nil
  then show ?case by simp
next
  case (Cons i "is")
  have "j < length (ts[i := f i])" using Cons.prems by simp
  from Cons.IH[OF this] Cons.prems show ?case by (auto simp: nth_list_update)
qed

lemma fold_min_Min:
  "fold (\<lambda>i a. min a (g i)) is (acc::32 word) = Min (insert acc (g ` set is))"
proof -
  have "(\<lambda>i a. min a (g i)) = min \<circ> g"
    by (auto simp: fun_eq_iff min.commute)
  then have "fold (\<lambda>i a. min a (g i)) is acc = fold min (map g is) acc"
    by (simp add: fold_map)
  also have "\<dots> = Min (set (acc # map g is))"
    by (rule Min.set_eq_fold [symmetric])
  finally show ?thesis by simp
qed

lemma fold_body:
  assumes "distinct is" "\<forall>i\<in>set is. i < length (m_timers m)"
  shows "fold (soft_timers_update_body s) is (acc, m) =
     (fold (\<lambda>i a. min a (countdown_ms (fst (stepped s m i)))) is acc,
      m\<lparr>m_timers := fold (\<lambda>i ts. ts[i := fst (stepped s m i)]) is (m_timers m),
        calls := calls m @ concat (map (\<lambda>i. snd (stepped s m i)) is)\<rparr>)"
  using assms
proof (induction "is" arbitrary: acc m)
  case Nil
  then show ?case by simp
next
  case (Cons i "is")
  let ?m1 = "m\<lparr>m_timers := (m_timers m)[i := fst (stepped s m i)],
                calls := calls m @ snd (stepped s m i)\<rparr>"
  have same: "stepped s ?m1 j = stepped s m j" if "j \<in> set is" for j
  proof -
    from that Cons.prems have "j \<noteq> i" by auto
    then show ?thesis by (simp add: stepped_def)
  qed
  have d: "distinct is" and b: "\<forall>j\<in>set is. j < length (m_timers ?m1)"
    using Cons.prems by simp_all
  have f1: "fold (\<lambda>i a. min a (countdown_ms (fst (stepped s ?m1 i)))) is a
          = fold (\<lambda>i a. min a (countdown_ms (fst (stepped s m i)))) is a" for a
    by (rule fold_cong) (simp_all add: same)
  have f2: "fold (\<lambda>i ts. ts[i := fst (stepped s ?m1 i)]) is ts
          = fold (\<lambda>i ts. ts[i := fst (stepped s m i)]) is ts" for ts
    by (rule fold_cong) (simp_all add: same)
  have f3: "map (\<lambda>i. snd (stepped s ?m1 i)) is = map (\<lambda>i. snd (stepped s m i)) is"
    by (rule map_cong) (simp_all add: same)
  have i: "i < length (m_timers m)" using Cons.prems by simp
  show ?case
    using Cons.IH[OF d b] i by (simp add: body_simp f1 f2 f3)
qed


lemma loop_eq:
  assumes "length (m_timers m) = SOFT_TIMER_MAX_TIMERS"
  shows "soft_timers_update_loop s m =
     (Min (insert STOPPED_TIMER_COUNTDOWN_VALUE
             ((\<lambda>i. countdown_ms (fst (stepped s m i))) ` {0..<SOFT_TIMER_MAX_TIMERS})),
      m\<lparr>m_timers := map (\<lambda>i. fst (stepped s m i)) [0..<SOFT_TIMER_MAX_TIMERS],
        calls := calls m @ concat (map (\<lambda>i. snd (stepped s m i)) [0..<SOFT_TIMER_MAX_TIMERS])\<rparr>)"
proof -
  have pool: "fold (\<lambda>i ts. ts[i := fst (stepped s m i)]) [0..<SOFT_TIMER_MAX_TIMERS] (m_timers m)
      = map (\<lambda>i. fst (stepped s m i)) [0..<SOFT_TIMER_MAX_TIMERS]"
    by (rule nth_equalityI) (simp_all add: fold_update_length fold_update_nth assms)
  show ?thesis
    unfolding soft_timers_update_loop_def
    by (subst fold_body) (simp_all add: assms fold_min_Min pool)
qed

lemma pool_after_length: "length (pool_after s m) = SOFT_TIMER_MAX_TIMERS"
  by (simp add: pool_after_def)


lemma loop_min_pool:
  "(\<lambda>i. countdown_ms (fst (stepped s m i))) ` {0..<SOFT_TIMER_MAX_TIMERS}
     = countdown_ms ` set (pool_after s m)"
  by (auto simp: pool_after_def)

lemma soft_timers_update_eq:
  assumes "length (m_timers m) = SOFT_TIMER_MAX_TIMERS"
  shows "soft_timers_update s m =
     (let M = Min (insert STOPPED_TIMER_COUNTDOWN_VALUE (countdown_ms ` set (pool_after s m)))
      in (if M = STOPPED_TIMER_COUNTDOWN_VALUE then 0 else M,
          m\<lparr>m_timers := pool_after s m,
            calls := calls m @ concat (map (\<lambda>i. snd (stepped s m i)) [0..<SOFT_TIMER_MAX_TIMERS])\<rparr>))"
  by (simp add: soft_timers_update_def loop_eq[OF assms] loop_min_pool Let_def)
    (simp add: pool_after_def)

lemma timers_update_pool:
  "length (m_timers m) = SOFT_TIMER_MAX_TIMERS \<Longrightarrow> m_timers (timers_update s m) = pool_after s m"
  by (simp add: timers_update_def soft_timers_update_eq hard_timer_update_def Let_def)


lemma timers_update_fields:
  "length (m_timers m) = SOFT_TIMER_MAX_TIMERS \<Longrightarrow> m_is_initialized (timers_update s m) = m_is_initialized m"
  "length (m_timers m) = SOFT_TIMER_MAX_TIMERS \<Longrightarrow> m_max_reload_ms (timers_update s m) = m_max_reload_ms m"
  by (simp_all add: timers_update_def soft_timers_update_eq hard_timer_update_def Let_def)


section \<open>Invariants under the pool-wide update\<close>

lemma pool_after_mem:
  assumes "t' \<in> set (pool_after s m)" "length (m_timers m) = SOFT_TIMER_MAX_TIMERS"
  obtains i where "i < SOFT_TIMER_MAX_TIMERS" "m_timers m ! i \<in> set (m_timers m)"
    "t' = fst (timer_step i (m_timers m ! i) (ucast s))"
  using assms by (auto simp: pool_after_def stepped_def)

lemma step_fits_le: "step_fits m s \<Longrightarrow> s' \<le> s \<Longrightarrow> step_fits m s'"
  by (auto simp: step_fits_def)


lemma step_fits_narrow: "step_fits m s \<Longrightarrow> step_fits m (ucast (ucast s :: 16 word))"
  by (erule step_fits_le) (rule narrow_widen_le)

lemma sentinel_inv_timers_update:
  assumes "sentinel_inv m"
  shows "sentinel_inv (timers_update s m)"
proof -
  from assms have len: "length (m_timers m) = SOFT_TIMER_MAX_TIMERS"
    and sen: "\<And>t. t \<in> set (m_timers m) \<Longrightarrow> state t \<noteq> TIMER_STATE_RUNNING \<longrightarrow>
        countdown_ms t = STOPPED_TIMER_COUNTDOWN_VALUE"
    by (auto simp: sentinel_inv_def)
  have "state t' \<noteq> TIMER_STATE_RUNNING \<longrightarrow> countdown_ms t' = STOPPED_TIMER_COUNTDOWN_VALUE"
    if "t' \<in> set (pool_after s m)" for t'
    using that len
  proof (rule pool_after_mem)
    fix i
    assume "m_timers m ! i \<in> set (m_timers m)"
      and t': "t' = fst (timer_step i (m_timers m ! i) (ucast s))"
    then show ?thesis
      using timer_step_sentinel [OF sen, of "m_timers m ! i" i "ucast s"] by simp
  qed
  then show ?thesis
    by (simp add: sentinel_inv_def timers_update_pool [OF len] pool_after_length)
qed

lemma pool_inv_timers_update:
  assumes "pool_inv m" "step_fits m s"
  shows "pool_inv (timers_update s m)"
proof -
  from assms have sen: "sentinel_inv m"
    and bnd: "\<And>t. t \<in> set (m_timers m) \<Longrightarrow> state t = TIMER_STATE_RUNNING \<longrightarrow>
        countdown_ms t < reload_ms t"
    and fit: "\<And>t. t \<in> set (m_timers m) \<Longrightarrow> state t = TIMER_STATE_RUNNING \<longrightarrow>
        ucast (ucast s :: 16 word) \<le> countdown_ms t"
    using step_fits_narrow [of m s] by (auto simp: pool_inv_def step_fits_def)
  from sen have len: "length (m_timers m) = SOFT_TIMER_MAX_TIMERS"
    by (simp add: sentinel_inv_def)
  have "state t' = TIMER_STATE_RUNNING \<longrightarrow> countdown_ms t' < reload_ms t'"
    if "t' \<in> set (pool_after s m)" for t'
    using that len
  proof (rule pool_after_mem)
    fix i
    assume mem: "m_timers m ! i \<in> set (m_timers m)"
      and t': "t' = fst (timer_step i (m_timers m ! i) (ucast s))"
    show ?thesis
      using timer_step_bounded [OF bnd [OF mem] fit [OF mem], of i] t' by simp
  qed
  with sentinel_inv_timers_update [OF sen, of s] show ?thesis
    by (simp add: pool_inv_def timers_update_pool [OF len])
qed





lemma sentinel_top: "x \<le> STOPPED_TIMER_COUNTDOWN_VALUE"
proof -
  have top: "STOPPED_TIMER_COUNTDOWN_VALUE = (- 1 :: 32 word)"
    by (simp add: STOPPED_TIMER_COUNTDOWN_VALUE_def)
  show ?thesis by (subst top) (rule word_n1_ge)
qed

lemma below_not_sentinel: "x < (r :: 32 word) \<Longrightarrow> x \<noteq> STOPPED_TIMER_COUNTDOWN_VALUE"
  using sentinel_top [of r] by auto

lemma running_countdowns_set:
  "set (running_countdowns m) = countdown_ms ` {t \<in> set (m_timers m). state t = TIMER_STATE_RUNNING}"
  by (auto simp: running_countdowns_def)

lemma raw_min_running:
  assumes "sentinel_inv m"
  shows "Min (insert STOPPED_TIMER_COUNTDOWN_VALUE (countdown_ms ` set (m_timers m)))
       = (if running_countdowns m = [] then STOPPED_TIMER_COUNTDOWN_VALUE
          else Min (set (running_countdowns m)))"
proof -
  let ?S = "STOPPED_TIMER_COUNTDOWN_VALUE"
  let ?R = "set (running_countdowns m)"
  from assms have sen: "\<And>t. t \<in> set (m_timers m) \<Longrightarrow> state t \<noteq> TIMER_STATE_RUNNING \<Longrightarrow>
      countdown_ms t = ?S"
    by (auto simp: sentinel_inv_def)
  have eq: "insert ?S (countdown_ms ` set (m_timers m)) = insert ?S ?R"
    using sen by (auto simp: running_countdowns_set)
  show ?thesis
  proof (cases "running_countdowns m = []")
    case True
    then show ?thesis by (simp add: eq)
  next
    case False
    then have ne: "?R \<noteq> {}" by simp
    have "Min (insert ?S ?R) = min ?S (Min ?R)"
      using ne by simp
    also have "\<dots> = Min ?R"
      by (simp add: min_absorb2 sentinel_top)
    finally show ?thesis using False by (simp add: eq)
  qed
qed

lemma running_min_not_sentinel:
  assumes "pool_inv m" "running_countdowns m \<noteq> []"
  shows "Min (set (running_countdowns m)) \<noteq> STOPPED_TIMER_COUNTDOWN_VALUE"
proof -
  have "Min (set (running_countdowns m)) \<in> set (running_countdowns m)"
    using assms(2) by (intro Min_in) simp_all
  then obtain t where "t \<in> set (m_timers m)" "state t = TIMER_STATE_RUNNING"
    "Min (set (running_countdowns m)) = countdown_ms t"
    by (auto simp: running_countdowns_set)
  with assms(1) show ?thesis
    by (auto simp: pool_inv_def dest: below_not_sentinel)
qed

lemma soft_timers_update_snd:
  assumes "length (m_timers m) = SOFT_TIMER_MAX_TIMERS"
  shows "m_timers (snd (soft_timers_update s m)) = pool_after s m"
    and "mp_htim (snd (soft_timers_update s m)) = mp_htim m"
    and "m_max_reload_ms (snd (soft_timers_update s m)) = m_max_reload_ms m"
    and "snd (soft_timers_update s m) = (timers_update s m)\<lparr>mp_htim := mp_htim m\<rparr>"
  by (simp_all add: soft_timers_update_eq [OF assms] Let_def timers_update_def hard_timer_update_def)

lemma soft_timers_update_next_timeout:
  assumes "pool_inv m" "step_fits m s"
  shows "fst (soft_timers_update s m) = next_timeout (snd (soft_timers_update s m))"
proof -
  let ?m' = "timers_update s m"
  from assms(1) have len: "length (m_timers m) = SOFT_TIMER_MAX_TIMERS"
    by (simp add: pool_inv_def sentinel_inv_def)
  have inv': "pool_inv ?m'" using assms by (rule pool_inv_timers_update)
  then have sen': "sentinel_inv ?m'" by (simp add: pool_inv_def)
  have rc: "running_countdowns (snd (soft_timers_update s m)) = running_countdowns ?m'"
    by (simp add: running_countdowns_def soft_timers_update_snd(1) [OF len] timers_update_pool [OF len])
  have "fst (soft_timers_update s m) =
      (let M = Min (insert STOPPED_TIMER_COUNTDOWN_VALUE (countdown_ms ` set (m_timers ?m')))
       in if M = STOPPED_TIMER_COUNTDOWN_VALUE then 0 else M)"
    by (simp add: soft_timers_update_eq [OF len] timers_update_pool [OF len] Let_def)
  also have "\<dots> = next_timeout ?m'"
    using running_min_not_sentinel [OF inv']
    by (simp add: raw_min_running [OF sen'] next_timeout_def Let_def)
  finally show ?thesis by (simp add: next_timeout_def rc)
qed

section \<open>The scan of \<open>soft_timer_create\<close>\<close>

lemma create_from_none:
  "(\<forall>j. i \<le> j \<and> j < i + n \<longrightarrow> state (m_timers m ! j) \<noteq> TIMER_STATE_FREE) \<Longrightarrow>
   soft_timer_create_from n i m = (NULL, m)"
proof (induction n arbitrary: i)
  case 0
  then show ?case by simp
next
  case (Suc n)
  have "state (m_timers m ! i) \<noteq> TIMER_STATE_FREE" using Suc.prems by simp
  moreover have "soft_timer_create_from n (Suc i) m = (NULL, m)"
    using Suc.prems by (intro Suc.IH) simp
  ultimately show ?case by simp
qed

lemma create_from_first:
  "i \<le> k \<Longrightarrow> k < i + n \<Longrightarrow> state (m_timers m ! k) = TIMER_STATE_FREE \<Longrightarrow>
   (\<forall>j. i \<le> j \<and> j < k \<longrightarrow> state (m_timers m ! j) \<noteq> TIMER_STATE_FREE) \<Longrightarrow>
   soft_timer_create_from n i m =
     (Ptr (int k), m\<lparr>m_timers := (m_timers m)[k := (m_timers m ! k)\<lparr>state := TIMER_STATE_STOPPED\<rparr>]\<rparr>)"
proof (induction n arbitrary: i)
  case 0
  then show ?case by simp
next
  case (Suc n)
  show ?case
  proof (cases "i = k")
    case True
    with Suc.prems show ?thesis by simp
  next
    case False
    with Suc.prems have "state (m_timers m ! i) \<noteq> TIMER_STATE_FREE" by simp
    moreover have "soft_timer_create_from n (Suc i) m =
       (Ptr (int k), m\<lparr>m_timers := (m_timers m)[k := (m_timers m ! k)\<lparr>state := TIMER_STATE_STOPPED\<rparr>]\<rparr>)"
      using Suc.prems False by (intro Suc.IH) simp_all
    ultimately show ?thesis by simp
  qed
qed

lemma create_marks_first_free_slot:
  assumes "length (m_timers m) = SOFT_TIMER_MAX_TIMERS"
  shows "(\<forall>k<SOFT_TIMER_MAX_TIMERS.
            state (m_timers m ! k) = TIMER_STATE_FREE \<and>
            (\<forall>j<k. state (m_timers m ! j) \<noteq> TIMER_STATE_FREE) \<longrightarrow>
              soft_timer_create m =
                (Ptr (int k),
                 m\<lparr>m_timers := (m_timers m)[k := (m_timers m ! k)\<lparr>state := TIMER_STATE_STOPPED\<rparr>]\<rparr>)
              \<and> m_timers (snd (soft_timer_create m)) ! k =
                  (m_timers m ! k)\<lparr>state := TIMER_STATE_STOPPED\<rparr>)
       \<and> ((\<forall>j<SOFT_TIMER_MAX_TIMERS. state (m_timers m ! j) \<noteq> TIMER_STATE_FREE) \<longrightarrow>
            soft_timer_create m = (NULL, m))"
proof (intro conjI allI impI)
  fix k
  assume k: "k < SOFT_TIMER_MAX_TIMERS"
    and free: "state (m_timers m ! k) = TIMER_STATE_FREE \<and>
      (\<forall>j<k. state (m_timers m ! j) \<noteq> TIMER_STATE_FREE)"
  then show eq: "soft_timer_create m =
      (Ptr (int k),
       m\<lparr>m_timers := (m_timers m)[k := (m_timers m ! k)\<lparr>state := TIMER_STATE_STOPPED\<rparr>]\<rparr>)"
    unfolding soft_timer_create_def by (intro create_from_first) simp_all
  show "m_timers (snd (soft_timer_create m)) ! k = (m_timers m ! k)\<lparr>state := TIMER_STATE_STOPPED\<rparr>"
    using k assms by (simp add: eq)
next
  assume "\<forall>j<SOFT_TIMER_MAX_TIMERS. state (m_timers m ! j) \<noteq> TIMER_STATE_FREE"
  then show "soft_timer_create m = (NULL, m)"
    unfolding soft_timer_create_def by (intro create_from_none) simp
qed

section \<open>Initialisation and the operations that touch no Running slot\<close>




















section \<open>Start, stop, expiry, and the sentinel invariant over all operations\<close>











lemma timers_update_length:
  "length (m_timers m) = SOFT_TIMER_MAX_TIMERS \<Longrightarrow>
   length (m_timers (timers_update s m)) = SOFT_TIMER_MAX_TIMERS"
  by (simp add: timers_update_pool pool_after_length)


lemma sentinel_inv_length: "sentinel_inv m \<Longrightarrow> length (m_timers m) = SOFT_TIMER_MAX_TIMERS"
  by (simp add: sentinel_inv_def)

lemma pool_inv_length: "pool_inv m \<Longrightarrow> length (m_timers m) = SOFT_TIMER_MAX_TIMERS"
  by (simp add: pool_inv_def sentinel_inv_def)






lemma loop_pool:
  "length (m_timers m) = SOFT_TIMER_MAX_TIMERS \<Longrightarrow>
   m_timers (snd (soft_timers_update_loop s m)) = pool_after s m"
  by (simp add: loop_eq pool_after_def)

lemma loop_raw:
  "length (m_timers m) = SOFT_TIMER_MAX_TIMERS \<Longrightarrow>
   fst (soft_timers_update_loop s m) =
     Min (insert STOPPED_TIMER_COUNTDOWN_VALUE (countdown_ms ` set (pool_after s m)))"
  by (simp add: loop_eq loop_min_pool)

lemma Min_insert_sentinel:
  assumes "ts \<noteq> []"
  shows "Min (insert STOPPED_TIMER_COUNTDOWN_VALUE (countdown_ms ` set ts)) = Min (countdown_ms ` set ts)"
proof -
  have "Min (insert STOPPED_TIMER_COUNTDOWN_VALUE (countdown_ms ` set ts))
      = min STOPPED_TIMER_COUNTDOWN_VALUE (Min (countdown_ms ` set ts))"
    using assms by simp
  then show ?thesis by (simp add: min_absorb2 sentinel_top)
qed

lemma sentinel_inv_loop:
  assumes "sentinel_inv m"
  shows "sentinel_inv (snd (soft_timers_update_loop s m))"
proof -
  have len: "length (m_timers m) = SOFT_TIMER_MAX_TIMERS"
    using assms by (rule sentinel_inv_length)
  from sentinel_inv_timers_update [OF assms, of s] show ?thesis
    by (simp add: sentinel_inv_def loop_pool [OF len] timers_update_pool [OF len])
qed

lemma loop_minimum:
  assumes "sentinel_inv m"
  shows "fst (soft_timers_update_loop s m) = Min (countdown_ms ` set (m_timers (snd (soft_timers_update_loop s m))))"
    and "fst (soft_timers_update_loop s m) =
          (if running_countdowns (snd (soft_timers_update_loop s m)) = []
           then STOPPED_TIMER_COUNTDOWN_VALUE
           else Min (set (running_countdowns (snd (soft_timers_update_loop s m)))))"
proof -
  have len: "length (m_timers m) = SOFT_TIMER_MAX_TIMERS"
    using assms by (rule sentinel_inv_length)
  have ne: "pool_after s m \<noteq> []"
    using pool_after_length [of s m] by (auto simp: SOFT_TIMER_MAX_TIMERS_def)
  show "fst (soft_timers_update_loop s m) = Min (countdown_ms ` set (m_timers (snd (soft_timers_update_loop s m))))"
    by (simp add: loop_raw [OF len] loop_pool [OF len] Min_insert_sentinel [OF ne])
  show "fst (soft_timers_update_loop s m) =
          (if running_countdowns (snd (soft_timers_update_loop s m)) = []
           then STOPPED_TIMER_COUNTDOWN_VALUE
           else Min (set (running_countdowns (snd (soft_timers_update_loop s m)))))"
    using raw_min_running [OF sentinel_inv_loop [OF assms, of s]]
    by (simp add: loop_raw [OF len] loop_pool [OF len])
qed

section \<open>The pool and hardware invariants over well-behaved operations\<close>











lemma pool_inv_sentinel: "pool_inv m \<Longrightarrow> sentinel_inv m"
  by (simp add: pool_inv_def)



section \<open>What a successful start leaves in its slot\<close>


section \<open>The callback calls of one slot over a run of advances\<close>




lemma run_Cons: "run (a # acts) m = run acts (snd (perform a m))"
  by (simp add: run_def)

lemma run_Nil: "run [] m = m"
  by (simp add: run_def)

lemma run_length_advances:
  "length (m_timers m) = SOFT_TIMER_MAX_TIMERS \<Longrightarrow>
   length (m_timers (run (map Advance steps) m)) = SOFT_TIMER_MAX_TIMERS"
  by (induction steps arbitrary: m) (simp_all add: run_Nil run_Cons timers_update_length)







section \<open>When the loop's minimum is the sentinel\<close>

lemma loop_running_countdowns:
  "length (m_timers m) = SOFT_TIMER_MAX_TIMERS \<Longrightarrow>
   running_countdowns (snd (soft_timers_update_loop s m)) = running_countdowns (timers_update s m)"
  by (simp add: running_countdowns_def loop_pool timers_update_pool)

lemma loop_sentinel_iff:
  assumes "pool_inv m" "step_fits m s"
  shows "fst (soft_timers_update_loop s m) = STOPPED_TIMER_COUNTDOWN_VALUE \<longleftrightarrow>
         running_countdowns (snd (soft_timers_update_loop s m)) = []"
proof -
  have len: "length (m_timers m) = SOFT_TIMER_MAX_TIMERS" using assms(1) by (rule pool_inv_length)
  have "pool_inv (timers_update s m)" using assms by (rule pool_inv_timers_update)
  from running_min_not_sentinel [OF this]
  have "running_countdowns (snd (soft_timers_update_loop s m)) \<noteq> [] \<Longrightarrow>
      Min (set (running_countdowns (snd (soft_timers_update_loop s m)))) \<noteq> STOPPED_TIMER_COUNTDOWN_VALUE"
    by (simp add: loop_running_countdowns [OF len])
  then show ?thesis
    using loop_minimum(2) [OF pool_inv_sentinel [OF assms(1)], of s] by auto
qed

section \<open>Countdowns do not grow between expiries\<close>













section \<open>What the pool-wide update reports\<close>


section \<open>The claims\<close>

subsection \<open>C1: the pool-wide update and the hardware reload\<close>




subsection \<open>C2: how often the callback is called\<close>




subsection \<open>C3: what the per-slot step does at expiry\<close>



subsection \<open>C4: a zero-length step on a slot whose countdown is zero\<close>




subsection \<open>C5: the elapsed time handed on by the expiry interrupt\<close>

text \<open>
  Claim C5 says that the expiry interrupt advances the pool by the whole reload value, for
  every reload value up to \<open>m_max_reload_ms\<close>.  The module accepts a 32-bit hardware timer
  (\<open>m_max_reload_ms\<close> up to \<open>0xFFFFFFFE\<close>), but \<open>soft_timer_period_elapsed_callback\<close>
  keeps the reload value in a \<open>uint16_t\<close> and \<open>timer_step\<close> takes a \<open>uint16_t\<close>.  With a
  timer of 65537 ms running alone the reload register holds 65536, the interrupt advances
  the pool by 0 ms, and nothing changes: the timer never expires.
\<close>

theorem C5_expiry_truncates_reload_to_16_bits:
  "m_max_reload_ms m_wide = 0xFFFFFFFE \<and>
   hard_timer_reload_get (mp_htim m_wide) = 0x10000 \<and>
   state (m_timers m_wide ! 0) = TIMER_STATE_RUNNING \<and>
   countdown_ms (m_timers m_wide ! 0) = 0x10000 \<and>
   soft_timer_period_elapsed_callback m_wide = timers_update 0 m_wide \<and>
   soft_timer_period_elapsed_callback m_wide = m_wide"
  by code_simp

subsection \<open>C6: the countdown of a Running slot\<close>




subsection \<open>C7: \<open>soft_timer_create\<close>\<close>

text \<open>
  Claim C7 says that \<open>soft_timer_create\<close> hands out the first Free slot Stopped, with
  the sentinel countdown and the repeat flag cleared.  The code writes the state field only.
  A slot that was configured (repeating, 5 ms, callback 1) and then destroyed comes back
  from \<open>soft_timer_create\<close> with the repeat flag, the reload value and the callback of its
  previous owner; started by its new owner without a new \<open>soft_timer_set\<close>, it calls the
  old callback after 4 ms and keeps Running.
\<close>

theorem C7_create_hands_out_stale_configuration:
  "state (m_timers m_recycled ! 0) = TIMER_STATE_FREE \<and>
   fst (soft_timer_create m_recycled) = Ptr 0 \<and>
   state (m_timers (snd (soft_timer_create m_recycled)) ! 0) = TIMER_STATE_STOPPED \<and>
   repeat (m_timers (snd (soft_timer_create m_recycled)) ! 0) = True \<and>
   reload_ms (m_timers (snd (soft_timer_create m_recycled)) ! 0) = 5 \<and>
   callback (m_timers (snd (soft_timer_create m_recycled)) ! 0) = Some 1 \<and>
   state (m_timers m_reused ! 0) = TIMER_STATE_RUNNING \<and>
   calls m_reused =
     [Callback_Call 1 0 \<lparr>state = TIMER_STATE_RUNNING, timer_id = 0, reload_ms = 5, countdown_ms = 0,
                         repeat = True, callback = Some 1\<rparr>]"
  by code_simp

subsection \<open>C8: \<open>soft_timer_destroy\<close>\<close>

text \<open>
  Claim C8 says that \<open>soft_timer_destroy\<close> fails with an invalid-state error on a Running
  slot and with an invalid-parameter error on a handle outside the pool.  The function is
  declared \<open>void\<close>: it reports no status.  On a Running slot it returns nothing and leaves
  the state and the caller's handle as they were.
\<close>

theorem C8_destroy_reports_no_error_counterexample:
  "state (m_timers m_two ! 0) = TIMER_STATE_RUNNING \<and>
   fst (perform (Destroy (Ptr 0)) m_two) \<noteq> Ret_Status SOFT_TIMER_STATUS_INVALID_STATE \<and>
   perform (Destroy (Ptr 0)) m_two = (Ret_Void, m_two) \<and>
   soft_timer_destroy (Ptr 0) m_two = (Ptr 0, m_two)"
  by code_simp

text \<open>
  Claim C8 as amended.  \<open>soft_timer_destroy\<close> returns no status.  It succeeds only when
  the handle points into the pool and the slot is currently Stopped: the slot then becomes
  Free, nothing else changes, and the caller's handle is set to \<open>NULL\<close>.  In every other
  case, the slot Running, the slot Free, or the handle not pointing into the pool, the
  call changes neither the module nor the handle.
\<close>

theorem C8_destroy_frees_only_a_stopped_slot:
  "(in_pool p \<and> state (m_timers m ! slot_of p) = TIMER_STATE_STOPPED \<longrightarrow>
      soft_timer_destroy p m =
        (NULL, m\<lparr>m_timers := (m_timers m)[slot_of p :=
                    (m_timers m ! slot_of p)\<lparr>state := TIMER_STATE_FREE\<rparr>]\<rparr>))
   \<and> (\<not> (in_pool p \<and> state (m_timers m ! slot_of p) = TIMER_STATE_STOPPED) \<longrightarrow>
      soft_timer_destroy p m = (p, m))
   \<and> (in_pool p \<and> state (m_timers m ! slot_of p) = TIMER_STATE_RUNNING \<longrightarrow>
      soft_timer_destroy p m = (p, m))
   \<and> (in_pool p \<and> state (m_timers m ! slot_of p) = TIMER_STATE_FREE \<longrightarrow>
      soft_timer_destroy p m = (p, m))
   \<and> (\<not> in_pool p \<longrightarrow> soft_timer_destroy p m = (p, m))
   \<and> (snd (soft_timer_destroy p m) \<noteq> m \<or> fst (soft_timer_destroy p m) \<noteq> p \<longrightarrow>
        in_pool p \<and> state (m_timers m ! slot_of p) = TIMER_STATE_STOPPED)
   \<and> fst (perform (Destroy p) m) = Ret_Void"
  by (simp add: soft_timer_destroy_def)

theorem C8_witness:
  "soft_timer_destroy (Ptr 0) m_created = (NULL, m_ready) \<and>
   soft_timer_destroy (Ptr 1) m_two = (Ptr 1, m_two) \<and>
   soft_timer_destroy (Ptr 5) m_two = (Ptr 5, m_two) \<and>
   soft_timer_destroy (Ptr (- 1)) m_two = (Ptr (- 1), m_two)"
proof -
  have a: "in_pool (Ptr 0) \<and> state (m_timers m_created ! slot_of (Ptr 0)) = TIMER_STATE_STOPPED"
    by code_simp
  have b: "in_pool (Ptr 1) \<and> state (m_timers m_two ! slot_of (Ptr 1)) = TIMER_STATE_RUNNING"
    by code_simp
  have f: "in_pool (Ptr 5) \<and> state (m_timers m_two ! slot_of (Ptr 5)) = TIMER_STATE_FREE"
    by code_simp
  have c: "\<not> in_pool (Ptr (- 1))"
    by code_simp
  have d: "m_created\<lparr>m_timers := (m_timers m_created)[slot_of (Ptr 0) :=
              (m_timers m_created ! slot_of (Ptr 0))\<lparr>state := TIMER_STATE_FREE\<rparr>]\<rparr> = m_ready"
    by code_simp
  show ?thesis
    using C8_destroy_frees_only_a_stopped_slot [of "Ptr 0" m_created] C8_destroy_frees_only_a_stopped_slot [of "Ptr 1" m_two] C8_destroy_frees_only_a_stopped_slot [of "Ptr 5" m_two]
      C8_destroy_frees_only_a_stopped_slot [of "Ptr (- 1)" m_two] a b f c d
    by simp
qed

subsection \<open>C9: handles outside the pool, and rejected calls\<close>

text \<open>
  Claim C9 says that all five functions that take a handle check it against the pool first
  and answer invalid-parameter outside it.  \<open>soft_timer_destroy\<close> checks the handle but has
  no status to return, and \<open>soft_timer_is_stopped\<close> does not check at all: it reads through
  whatever pointer it is given.
\<close>

theorem C9_no_invalid_parameter_counterexample:
  "\<not> in_pool (Ptr 10) \<and>
   fst (perform (Destroy (Ptr 10)) m_two) \<noteq> Ret_Status SOFT_TIMER_STATUS_INVALID_PARAMETER \<and>
   fst (perform (Is_Stopped (Ptr 10)) m_two) \<noteq> Ret_Status SOFT_TIMER_STATUS_INVALID_PARAMETER \<and>
   perform (Destroy (Ptr 10)) m_two = (Ret_Void, m_two) \<and>
   perform (Is_Stopped (Ptr 10)) m_two = (Ret_Undefined, m_two)"
  by code_simp

text \<open>
  Claim C9 as amended.  \<open>soft_timer_set\<close>, \<open>soft_timer_start\<close> and \<open>soft_timer_stop\<close>
  check the handle against the pool before anything else and return invalid-parameter for
  a handle outside it; \<open>soft_timer_destroy\<close> makes the same check and then does nothing.
  Every call of these four that is turned down (a status other than success, or a handle
  that \<open>soft_timer_destroy\<close> did not set to \<open>NULL\<close>) leaves the whole module state, the pool
  and the hardware timer, as it was.  Nothing is said about \<open>soft_timer_is_stopped\<close> on a
  handle outside the pool.
\<close>

theorem C9_rejected_calls_change_nothing:
  "(\<not> in_pool p \<longrightarrow>
      soft_timer_set p cb reload rep m = (SOFT_TIMER_STATUS_INVALID_PARAMETER, m) \<and>
      soft_timer_start p m = (SOFT_TIMER_STATUS_INVALID_PARAMETER, m) \<and>
      soft_timer_stop p m = (SOFT_TIMER_STATUS_INVALID_PARAMETER, m) \<and>
      soft_timer_destroy p m = (p, m))
   \<and> (fst (soft_timer_set p cb reload rep m) \<noteq> SOFT_TIMER_STATUS_SUCCESS \<longrightarrow>
        snd (soft_timer_set p cb reload rep m) = m)
   \<and> (fst (soft_timer_start p m) \<noteq> SOFT_TIMER_STATUS_SUCCESS \<longrightarrow> snd (soft_timer_start p m) = m)
   \<and> (fst (soft_timer_stop p m) \<noteq> SOFT_TIMER_STATUS_SUCCESS \<longrightarrow> snd (soft_timer_stop p m) = m)
   \<and> (fst (soft_timer_destroy p m) \<noteq> NULL \<longrightarrow> snd (soft_timer_destroy p m) = m)"
  by (simp add: soft_timer_set_def soft_timer_start_def soft_timer_stop_def
      soft_timer_destroy_def Let_def)

theorem C9_witness:
  "soft_timer_set (Ptr 10) (Some 3) 20 False m_two = (SOFT_TIMER_STATUS_INVALID_PARAMETER, m_two) \<and>
   soft_timer_start NULL m_two = (SOFT_TIMER_STATUS_INVALID_PARAMETER, m_two) \<and>
   soft_timer_stop (Ptr (- 1)) m_two = (SOFT_TIMER_STATUS_INVALID_PARAMETER, m_two) \<and>
   snd (soft_timer_start (Ptr 0) m_two) = m_two"
proof -
  have a: "\<not> in_pool (Ptr 10)" by code_simp
  have b: "\<not> in_pool NULL" by code_simp
  have c: "\<not> in_pool (Ptr (- 1))" by code_simp
  have d: "fst (soft_timer_start (Ptr 0) m_two) \<noteq> SOFT_TIMER_STATUS_SUCCESS" by code_simp
  show ?thesis
    using C9_rejected_calls_change_nothing [of "Ptr 10" "Some 3" 20 False m_two]
      C9_rejected_calls_change_nothing [of NULL None 0 False m_two]
      C9_rejected_calls_change_nothing [of "Ptr (- 1)" None 0 False m_two]
      C9_rejected_calls_change_nothing [of "Ptr 0" None 0 False m_two]
      a b c d
    by simp
qed

subsection \<open>C10: slots that are not Running hold the sentinel\<close>




end
